theory Spec2Isabelle
  imports Complex_Main "HOL-Library.Multiset"
begin

section \<open>Vectors\<close>

text \<open>
  The script works on \<open>mathutils.Vector\<close> values with three components. The components
  are read here as real numbers: rounding of the machine floats is not part of the model,
  every other step of the script is.
\<close>

datatype Vector = Vec (vx: real) (vy: real) (vz: real)

definition vzero :: Vector where
  "vzero = Vec 0 0 0"

fun vadd :: "Vector \<Rightarrow> Vector \<Rightarrow> Vector" where
  "vadd (Vec a b c) (Vec d e f) = Vec (a + d) (b + e) (c + f)"

fun vsub :: "Vector \<Rightarrow> Vector \<Rightarrow> Vector" where
  "vsub (Vec a b c) (Vec d e f) = Vec (a - d) (b - e) (c - f)"

text \<open>\<open>v * k\<close> and \<open>k * v\<close> for a number \<open>k\<close>.\<close>

fun smul :: "real \<Rightarrow> Vector \<Rightarrow> Vector" where
  "smul k (Vec a b c) = Vec (k * a) (k * b) (k * c)"

text \<open>\<open>v / k\<close> for a number \<open>k\<close>.\<close>

fun sdiv :: "Vector \<Rightarrow> real \<Rightarrow> Vector" where
  "sdiv (Vec a b c) k = Vec (a / k) (b / k) (c / k)"

fun dot :: "Vector \<Rightarrow> Vector \<Rightarrow> real" where
  "dot (Vec a b c) (Vec d e f) = a * d + b * e + c * f"

fun cross :: "Vector \<Rightarrow> Vector \<Rightarrow> Vector" where
  "cross (Vec a b c) (Vec d e f) = Vec (b * f - c * e) (c * d - a * f) (a * e - b * d)"

text \<open>\<open>v.length\<close>\<close>

definition vlength :: "Vector \<Rightarrow> real" where
  "vlength p = sqrt (dot p p)"

text \<open>\<open>v.normalized()\<close>: a vector of length zero is returned as it is.\<close>

definition normalized :: "Vector \<Rightarrow> Vector" where
  "normalized p = (if vlength p = 0 then p else sdiv p (vlength p))"

text \<open>\<open>a.lerp(b, fac)\<close>\<close>

definition lerp :: "Vector \<Rightarrow> Vector \<Rightarrow> real \<Rightarrow> Vector" where
  "lerp a b fac = vadd (smul (1 - fac) a) (smul fac b)"

section \<open>The helpers of the script\<close>

definition project_to_radius :: "Vector \<Rightarrow> real \<Rightarrow> Vector" where
  "project_to_radius p radius =
     (if vlength p = 0 then Vec radius 0 0
      else smul radius (normalized p))"

definition tangent_basis :: "Vector \<Rightarrow> Vector \<times> Vector" where
  "tangent_basis n0 =
     (let n = normalized n0;
          a = (if \<bar>vx n\<bar> < 0.9 then Vec 1 0 0 else Vec 0 1 0);
          t = normalized (cross n a);
          b = normalized (cross n t)
      in (t, b))"

section \<open>Meshes\<close>

text \<open>
  A mesh as the script sees it through \<open>bmesh\<close>: the vertices in iteration order, each
  with its position \<open>co\<close>, and edges and faces that name their vertices by index.
\<close>

record bmesh =
  verts :: "Vector list"
  edges :: "(nat \<times> nat) list"
  faces :: "nat list list"

text \<open>Every edge joins two vertices of the mesh it belongs to.\<close>

definition edges_valid :: "bmesh \<Rightarrow> bool" where
  "edges_valid m =
     list_all (\<lambda>e. fst e < length (verts m) \<and> snd e < length (verts m)) (edges m)"

definition link_edges :: "bmesh \<Rightarrow> nat \<Rightarrow> (nat \<times> nat) list" where
  "link_edges m v = filter (\<lambda>e. fst e = v \<or> snd e = v) (edges m)"

definition other_vert :: "nat \<times> nat \<Rightarrow> nat \<Rightarrow> nat" where
  "other_vert e v = (if fst e = v then snd e else fst e)"

text \<open>The adjacency list \<open>nbrs[v]\<close>.\<close>

definition nbrs :: "bmesh \<Rightarrow> nat \<Rightarrow> nat list" where
  "nbrs m v = map (\<lambda>e. other_vert e v) (link_edges m v)"

section \<open>The random module\<close>

text \<open>
  Python's generator is not part of the script. It is a parameter: a state type \<open>'g\<close>,
  the state that \<open>random.seed(s)\<close> installs, and \<open>random.random()\<close> as a step on states.
\<close>

record 'g random_module =
  rng_seed :: "int \<Rightarrow> 'g"
  rng_random :: "'g \<Rightarrow> real \<times> 'g"

text \<open>\<open>random.seed(s)\<close> replaces the state of the global generator.\<close>

definition random_seed :: "'g random_module \<Rightarrow> int \<Rightarrow> 'g \<Rightarrow> 'g" where
  "random_seed R s g = rng_seed R s"

text \<open>\<open>random.uniform(a, b)\<close> is \<open>a + (b - a) * random()\<close>.\<close>

definition random_uniform :: "'g random_module \<Rightarrow> real \<Rightarrow> real \<Rightarrow> 'g \<Rightarrow> real \<times> 'g" where
  "random_uniform R a b g = (case rng_random R g of (r, g') \<Rightarrow> (a + (b - a) * r, g'))"

section \<open>The organic jitter\<close>

text \<open>The first loop: one random tangent offset for each vertex, in iteration order.\<close>

fun initial_offsets :: "'g random_module \<Rightarrow> real \<Rightarrow> Vector list \<Rightarrow> 'g \<Rightarrow> Vector list \<times> 'g" where
  "initial_offsets R strength [] g = ([], g)"
| "initial_offsets R strength (co # rest) g =
     (let n = normalized co;
          (t, b) = tangent_basis n;
          (ang, g1) = random_uniform R 0 (2 * pi) g;
          dir_tan = vadd (smul (cos ang) t) (smul (sin ang) b);
          (r, g2) = random_uniform R 0.2 1.0 g1;
          mag = r * strength;
          off = smul mag (normalized dir_tan);
          (offs, g3) = initial_offsets R strength rest g2
      in (off # offs, g3))"

text \<open>The inner loop of the smoothing: the running sum \<open>acc\<close> and the counter \<open>ln\<close>
  (\<open>cnt\<close> here).\<close>

definition accumulate :: "Vector list \<Rightarrow> nat list \<Rightarrow> Vector \<times> nat" where
  "accumulate offsets ns =
     fold (\<lambda>u (acc, cnt). (vadd acc (offsets ! u), cnt + 1)) ns (vzero, 0)"

definition smooth_vertex :: "bmesh \<Rightarrow> real \<Rightarrow> Vector list \<Rightarrow> nat \<Rightarrow> Vector" where
  "smooth_vertex m lam offsets v =
     (case accumulate offsets (nbrs m v) of
        (acc, cnt) \<Rightarrow>
          if cnt > 0 then lerp (offsets ! v) (sdiv acc (real cnt)) lam
          else offsets ! v)"

text \<open>One iteration: \<open>new_offsets\<close> is computed from the offsets before the iteration.\<close>

definition smooth_pass :: "bmesh \<Rightarrow> real \<Rightarrow> Vector list \<Rightarrow> Vector list" where
  "smooth_pass m lam offsets = map (smooth_vertex m lam offsets) [0..<length (verts m)]"

text \<open>\<open>range(max(0, smooth_iters))\<close>\<close>

definition iteration_count :: "int \<Rightarrow> nat" where
  "iteration_count smooth_iters = nat (max 0 smooth_iters)"

definition smooth_offsets :: "bmesh \<Rightarrow> real \<Rightarrow> int \<Rightarrow> Vector list \<Rightarrow> Vector list" where
  "smooth_offsets m lam smooth_iters offsets =
     ((smooth_pass m lam) ^^ (iteration_count smooth_iters)) offsets"

text \<open>The offset that the last loop adds to the position of a vertex.\<close>

definition tangential_offset :: "Vector \<Rightarrow> Vector \<Rightarrow> Vector" where
  "tangential_offset co off = (let n = normalized co in vsub off (smul (dot off n) n))"

definition apply_offset :: "real \<Rightarrow> Vector \<Rightarrow> Vector \<Rightarrow> Vector" where
  "apply_offset radius co off = project_to_radius (vadd co (tangential_offset co off)) radius"

text \<open>
  The whole pass. It takes the mesh and the state of the global generator and returns both
  as the call leaves them.
\<close>

definition organic_jitter_dual_on_sphere ::
  "'g random_module \<Rightarrow> bmesh \<Rightarrow> real \<Rightarrow> real \<Rightarrow> int \<Rightarrow> real \<Rightarrow> int \<Rightarrow> 'g \<Rightarrow> bmesh \<times> 'g" where
  "organic_jitter_dual_on_sphere R m radius strength smooth_iters lam seed g0 =
     (let g = random_seed R seed g0;
          (offsets0, g') = initial_offsets R strength (verts m) g;
          offsets = smooth_offsets m lam smooth_iters offsets0;
          new_co = map (\<lambda>v. apply_offset radius (verts m ! v) (offsets ! v))
                       [0..<length (verts m)]
      in (m\<lparr>verts := new_co\<rparr>, g'))"

section \<open>The dual builder\<close>

text \<open>The exceptions that the calls of the builder can raise.\<close>

datatype error = ValueError | TypeError | KeyError

text \<open>\<open>f.calc_center_median()\<close>: the mean of the positions of the corners of a face.\<close>

definition calc_center_median :: "bmesh \<Rightarrow> nat list \<Rightarrow> Vector" where
  "calc_center_median m f =
     sdiv (fold (\<lambda>v acc. vadd acc (verts m ! v)) f vzero) (real (length f))"

text \<open>
  \<open>v.link_faces\<close>: the faces that have \<open>v\<close> as a corner, each named by its index, in
  the order of the indices. The order decides only how the stable sort places faces with
  equal angles.
\<close>

definition link_faces :: "bmesh \<Rightarrow> nat \<Rightarrow> nat list" where
  "link_faces m v = filter (\<lambda>i. v \<in> set (faces m ! i)) [0..<length (faces m)]"

text \<open>\<open>math.atan2(y, x)\<close>\<close>

definition atan2 :: "real \<Rightarrow> real \<Rightarrow> real" where
  "atan2 y x =
     (if 0 < x then arctan (y / x)
      else if x < 0 then (if 0 \<le> y then arctan (y / x) + pi else arctan (y / x) - pi)
      else if 0 < y then pi / 2
      else if y < 0 then - (pi / 2)
      else 0)"

definition empty_bmesh :: bmesh where
  "empty_bmesh = \<lparr>verts = [], edges = [], faces = []\<rparr>"

text \<open>
  The first loop: one dual vertex at the centre of each face, and the dictionary
  \<open>face_to_dv\<close> from the face to the vertex made for it.
\<close>

definition new_dual_vert :: "bmesh \<Rightarrow> nat \<Rightarrow> bmesh \<times> (nat \<rightharpoonup> nat) \<Rightarrow> bmesh \<times> (nat \<rightharpoonup> nat)" where
  "new_dual_vert bm f st =
     (case st of
        (dual_bm, face_to_dv) \<Rightarrow>
          (let c = calc_center_median bm (faces bm ! f);
               dv = length (verts dual_bm)
           in (dual_bm\<lparr>verts := verts dual_bm @ [c]\<rparr>, face_to_dv(f \<mapsto> dv))))"

definition create_dual_verts :: "bmesh \<Rightarrow> bmesh \<times> (nat \<rightharpoonup> nat)" where
  "create_dual_verts bm =
     fold (new_dual_vert bm) [0..<length (faces bm)] (empty_bmesh, Map.empty)"

text \<open>The body of the loop over the linked faces: the angle stored with face \<open>f\<close>.\<close>

definition face_angle :: "bmesh \<Rightarrow> Vector \<Rightarrow> Vector \<Rightarrow> Vector \<Rightarrow> Vector \<Rightarrow> nat \<Rightarrow> real" where
  "face_angle bm co n t b f =
     (let c = calc_center_median bm (faces bm ! f);
          u = vsub c co;
          u = vsub u (smul (dot u n) n)
      in if vlength u < 1 / 10 ^ 9 then 0
         else (let u = normalized u in atan2 (dot u b) (dot u t)))"

text \<open>\<open>items\<close> after \<open>items.sort(key=lambda x: x[0])\<close>; the sort is stable.\<close>

definition sorted_items :: "bmesh \<Rightarrow> nat \<Rightarrow> (real \<times> nat) list" where
  "sorted_items bm v =
     (let linked = link_faces bm v;
          n = normalized (verts bm ! v);
          (t, b) = tangent_basis n;
          items = map (\<lambda>f. (face_angle bm (verts bm ! v) n t b f, f)) linked
      in sort_key fst items)"

text \<open>\<open>[face_to_dv[f] for _, f in items]\<close>: a missing key raises.\<close>

fun dverts_of :: "(nat \<rightharpoonup> nat) \<Rightarrow> (real \<times> nat) list \<Rightarrow> error + nat list" where
  "dverts_of face_to_dv [] = Inr []"
| "dverts_of face_to_dv (item # items) =
     (case face_to_dv (snd item) of
        None \<Rightarrow> Inl KeyError
      | Some dv \<Rightarrow>
          (case dverts_of face_to_dv items of
             Inl e \<Rightarrow> Inl e
           | Inr dvs \<Rightarrow> Inr (dv # dvs)))"

text \<open>
  \<open>faces.new(verts)\<close> of \<open>bmesh\<close>, which is not part of the script: fewer than three
  vertices are a \<open>TypeError\<close>; a vertex given twice, or a face that already has exactly
  these vertices, is a \<open>ValueError\<close>. A new face brings the edges between its consecutive
  corners that the mesh does not have yet.
\<close>

definition face_exists :: "bmesh \<Rightarrow> nat list \<Rightarrow> bool" where
  "face_exists dual_bm vs =
     list_ex (\<lambda>f. length f = length vs \<and> set f = set vs) (faces dual_bm)"

definition add_edge :: "nat \<times> nat \<Rightarrow> (nat \<times> nat) list \<Rightarrow> (nat \<times> nat) list" where
  "add_edge e es = (if e \<in> set es \<or> (snd e, fst e) \<in> set es then es else es @ [e])"

definition faces_new :: "bmesh \<Rightarrow> nat list \<Rightarrow> error + bmesh" where
  "faces_new dual_bm vs =
     (if length vs < 3 then Inl TypeError
      else if \<not> distinct vs then Inl ValueError
      else if face_exists dual_bm vs then Inl ValueError
      else Inr (dual_bm\<lparr>edges := fold add_edge (zip vs (rotate1 vs)) (edges dual_bm),
                        faces := faces dual_bm @ [vs]\<rparr>))"

text \<open>
  The body of the loop over the vertices. \<open>continue\<close> and the swallowed \<open>ValueError\<close>
  both leave the dual mesh as it was; any other exception leaves the loop.
\<close>

definition dual_face_step :: "bmesh \<Rightarrow> (nat \<rightharpoonup> nat) \<Rightarrow> nat \<Rightarrow> bmesh \<Rightarrow> error + bmesh" where
  "dual_face_step bm face_to_dv v dual_bm =
     (let linked = link_faces bm v
      in if length linked < 3 then Inr dual_bm
         else (case dverts_of face_to_dv (sorted_items bm v) of
                 Inl e \<Rightarrow> Inl e
               | Inr dverts \<Rightarrow>
                   (case faces_new dual_bm dverts of
                      Inr dual_bm' \<Rightarrow> Inr dual_bm'
                    | Inl ValueError \<Rightarrow> Inr dual_bm
                    | Inl e \<Rightarrow> Inl e)))"

fun dual_faces_loop :: "bmesh \<Rightarrow> (nat \<rightharpoonup> nat) \<Rightarrow> nat list \<Rightarrow> bmesh \<Rightarrow> error + bmesh" where
  "dual_faces_loop bm face_to_dv [] dual_bm = Inr dual_bm"
| "dual_faces_loop bm face_to_dv (v # vs) dual_bm =
     (case dual_face_step bm face_to_dv v dual_bm of
        Inl e \<Rightarrow> Inl e
      | Inr dual_bm' \<Rightarrow> dual_faces_loop bm face_to_dv vs dual_bm')"

text \<open>
  The builder. \<open>bmesh.ops.triangulate\<close> is not part of the script and is a parameter.
  The result is the mesh that the new object carries.
\<close>

definition build_dual_from_object :: "(bmesh \<Rightarrow> bmesh) \<Rightarrow> bmesh \<Rightarrow> error + bmesh" where
  "build_dual_from_object triangulate obj =
     (let bm = triangulate obj;
          (dual_bm, face_to_dv) = create_dual_verts bm
      in dual_faces_loop bm face_to_dv [0..<length (verts bm)] dual_bm)"

section \<open>Notions used to state the properties\<close>

text \<open>The mean of a list of vectors, component by component.\<close>

definition mean :: "Vector list \<Rightarrow> Vector" where
  "mean ps = Vec (sum_list (map vx ps) / real (length ps))
                 (sum_list (map vy ps) / real (length ps))
                 (sum_list (map vz ps) / real (length ps))"

text \<open>The valence that the builder tests: the number of faces around a vertex.\<close>

definition valence :: "bmesh \<Rightarrow> nat \<Rightarrow> nat" where
  "valence m v = length (link_faces m v)"

definition triangulated :: "bmesh \<Rightarrow> bool" where
  "triangulated m =
     list_all (\<lambda>f. length f = 3 \<and> distinct f \<and> list_all (\<lambda>v. v < length (verts m)) f) (faces m)"

definition shared_faces :: "bmesh \<Rightarrow> nat \<Rightarrow> nat \<Rightarrow> nat list" where
  "shared_faces m a b =
     filter (\<lambda>i. a \<in> set (faces m ! i) \<and> b \<in> set (faces m ! i)) [0..<length (faces m)]"

text \<open>
  Closed and manifold: every edge borders exactly two faces, so two different vertices
  share either no face or two.
\<close>

definition closed_manifold :: "bmesh \<Rightarrow> bool" where
  "closed_manifold m =
     list_all (\<lambda>a. list_all (\<lambda>b. a = b \<or> length (shared_faces m a b) = 0 \<or>
                                          length (shared_faces m a b) = 2)
                             [0..<length (verts m)])
              [0..<length (verts m)]"

text \<open>The faces around \<open>v\<close> in the order of the sorted items.\<close>

definition corners :: "bmesh \<Rightarrow> nat \<Rightarrow> nat list" where
  "corners bm v = map snd (sorted_items bm v)"

text \<open>The sort key that the builder stores with face \<open>f\<close> around vertex \<open>v\<close>.\<close>

definition angle_key :: "bmesh \<Rightarrow> nat \<Rightarrow> nat \<Rightarrow> real" where
  "angle_key bm v f =
     (let n = normalized (verts bm ! v) in
      face_angle bm (verts bm ! v) n (fst (tangent_basis n)) (snd (tangent_basis n)) f)"

text \<open>
  The signed angle in the words of the specification: the direction from \<open>v\<close> to the centre
  of the face, without its normal component, normalized, measured in the tangent basis.
\<close>

definition tangent_direction :: "bmesh \<Rightarrow> nat \<Rightarrow> nat \<Rightarrow> Vector" where
  "tangent_direction bm v f =
     (let n = normalized (verts bm ! v);
          u = vsub (calc_center_median bm (faces bm ! f)) (verts bm ! v)
      in vsub u (smul (dot u n) n))"

definition spec_angle :: "bmesh \<Rightarrow> nat \<Rightarrow> nat \<Rightarrow> real" where
  "spec_angle bm v f =
     (let n = normalized (verts bm ! v);
          dir = normalized (tangent_direction bm v f)
      in atan2 (dot dir (snd (tangent_basis n))) (dot dir (fst (tangent_basis n))))"

text \<open>The dictionary that sends each of the first \<open>k\<close> faces to the vertex of the same index.\<close>

definition index_map :: "nat \<Rightarrow> (nat \<rightharpoonup> nat)" where
  "index_map k = (\<lambda>f. if f < k then Some f else None)"

section \<open>Example inputs\<close>

text \<open>A generator that alternates between the draws 0 and 1/2.\<close>

definition example_rng :: "nat random_module" where
  "example_rng =
     \<lparr>rng_seed = (\<lambda>s. nat \<bar>s\<bar>), rng_random = (\<lambda>g. (if even g then 0 else 1 / 2, Suc g))\<rparr>"

text \<open>A small mesh: three vertices on the unit sphere, one at the origin, two edges.\<close>

definition example_mesh :: bmesh where
  "example_mesh =
     \<lparr>verts = [Vec 1 0 0, Vec 0 1 0, Vec 0 0 1, Vec 0 0 0],
      edges = [(0, 1), (0, 2)],
      faces = [[0, 1, 2]]\<rparr>"

definition example_offsets :: "Vector list" where
  "example_offsets = [Vec 1 0 0, Vec 0 2 0, Vec 0 0 4, Vec 5 5 5]"

text \<open>
  A tetrahedron. The centre of its first face lies almost straight behind vertex 0: the
  tangent part of the direction to it is shorter than \<open>1e-9\<close>.
\<close>

definition tetrahedron :: bmesh where
  "tetrahedron =
     \<lparr>verts = [Vec 1 0 0, Vec 0 3 (- (1 / 10 ^ 10)), Vec 0 (- 3) (- (1 / 10 ^ 10)),
               Vec (- 1) 0 (1 / 10 ^ 10)],
      edges = [(0, 1), (1, 2), (2, 0), (2, 3), (3, 0), (3, 1)],
      faces = [[0, 1, 2], [0, 2, 3], [0, 3, 1], [1, 3, 2]]\<rparr>"

text \<open>Three triangles around one edge: the vertices 0 and 1 have the same three faces.\<close>

definition fan_mesh :: bmesh where
  "fan_mesh =
     \<lparr>verts = [Vec 0 0 1, Vec 0 0 (- 1), Vec 1 0 0, Vec 0 1 0, Vec (- 1) 0 0],
      edges = [(0, 1), (1, 2), (2, 0), (1, 3), (3, 0), (1, 4), (4, 0)],
      faces = [[0, 1, 2], [0, 1, 3], [0, 1, 4]]\<rparr>"

text \<open>The dual of the fan after the loop has passed vertex 0.\<close>

definition fan_dual :: bmesh where
  "fan_dual =
     \<lparr>verts = map (calc_center_median fan_mesh) (faces fan_mesh),
      edges = [],
      faces = [corners fan_mesh 0]\<rparr>"

section \<open>Vector algebra\<close>

lemma dot_self_nonneg: "0 \<le> dot p p"
  by (cases p) simp

lemma vlength_nonneg: "0 \<le> vlength p"
  by (simp add: vlength_def dot_self_nonneg)

lemma sq_sum_zero: "a * a + b * b + c * c = 0 \<longleftrightarrow> a = 0 \<and> b = 0 \<and> (c::real) = 0"
proof
  assume h: "a * a + b * b + c * c = 0"
  have "0 \<le> a * a" "0 \<le> b * b" "0 \<le> c * c" by simp_all
  with h have "a * a = 0" "b * b = 0" "c * c = 0" by linarith+
  then show "a = 0 \<and> b = 0 \<and> c = 0" by simp
qed simp

lemma vlength_zero_iff: "vlength p = 0 \<longleftrightarrow> p = vzero"
  by (cases p) (simp add: vlength_def vzero_def sq_sum_zero)

lemma vlength_axis_x: "vlength (Vec a 0 0) = \<bar>a\<bar>"
  by (simp add: vlength_def)

lemma vlength_axis_y: "vlength (Vec 0 b 0) = \<bar>b\<bar>"
  by (simp add: vlength_def)

lemma vlength_axis_z: "vlength (Vec 0 0 c) = \<bar>c\<bar>"
  by (simp add: vlength_def)

lemmas vlength_axis = vlength_axis_x vlength_axis_y vlength_axis_z

lemma vlength_smul: "vlength (smul k p) = \<bar>k\<bar> * vlength p"
proof (cases p)
  case (Vec a b c)
  have "k * a * (k * a) + k * b * (k * b) + k * c * (k * c) = k\<^sup>2 * (a * a + b * b + c * c)"
    by (simp add: power2_eq_square algebra_simps)
  then show ?thesis using Vec by (simp add: vlength_def real_sqrt_mult)
qed

lemma sdiv_smul: "sdiv p k = smul (1 / k) p"
  by (cases p) simp

lemma vlength_normalized: "vlength p \<noteq> 0 \<Longrightarrow> vlength (normalized p) = 1"
  using vlength_nonneg [of p] by (simp add: normalized_def sdiv_smul vlength_smul)

lemma vlength_project_to_radius: "vlength (project_to_radius p radius) = \<bar>radius\<bar>"
  by (simp add: project_to_radius_def vlength_smul vlength_normalized) (simp add: vlength_def)

lemma dot_normalized_self: "vlength p \<noteq> 0 \<Longrightarrow> dot (normalized p) (normalized p) = 1"
proof -
  assume "vlength p \<noteq> 0"
  then have "vlength (normalized p) = 1" by (rule vlength_normalized)
  then have "sqrt (dot (normalized p) (normalized p)) = 1" by (simp add: vlength_def)
  then show ?thesis by simp
qed

lemma dot_vsub_smul: "dot (vsub off (smul k n)) n = dot off n - k * dot n n"
  by (cases off; cases n) (simp add: algebra_simps)

lemma dot_vzero_right: "dot p vzero = 0"
  by (cases p) (simp add: vzero_def)

lemma vlength_vzero: "vlength vzero = 0"
  by (simp add: vlength_zero_iff)

lemma smul_zero: "smul 0 p = vzero"
  by (cases p) (simp add: vzero_def)

lemma vadd_vzero_right: "vadd p vzero = p"
  by (cases p) (simp add: vzero_def)

lemma vadd_vzero_left: "vadd vzero p = p"
  by (cases p) (simp add: vzero_def)

lemma vsub_vzero_right: "vsub p vzero = p"
  by (cases p) (simp add: vzero_def)

lemma sdiv_vzero: "sdiv vzero k = vzero"
  by (simp add: vzero_def)

lemma lerp_one: "lerp a b 1 = b"
  by (cases a; cases b) (simp add: lerp_def)

lemma lerp_vzero: "lerp vzero vzero fac = vzero"
  by (simp add: lerp_def vzero_def)

lemma length_initial_offsets: "length (fst (initial_offsets R strength cs g)) = length cs"
  by (induction cs arbitrary: g) (simp_all add: Let_def case_prod_beta)

lemma initial_offsets_zero:
  "fst (initial_offsets R 0 cs g) = replicate (length cs) vzero"
  by (induction cs arbitrary: g) (simp_all add: Let_def case_prod_beta smul_zero)

lemma snd_initial_offsets_strength:
  "snd (initial_offsets R s cs g) = snd (initial_offsets R s' cs g)"
  by (induction cs arbitrary: g) (simp_all add: Let_def case_prod_beta)

lemma fold_accumulate:
  "fold (\<lambda>u (acc, cnt). (vadd acc (offsets ! u), Suc cnt)) ns (a, k) =
     (vadd a (Vec (sum_list (map (\<lambda>u. vx (offsets ! u)) ns))
                 (sum_list (map (\<lambda>u. vy (offsets ! u)) ns))
                 (sum_list (map (\<lambda>u. vz (offsets ! u)) ns))), k + length ns)"
proof (induction ns arbitrary: a k)
  case Nil
  show ?case by (cases a) simp
next
  case (Cons u ns)
  show ?case by (cases a; cases "offsets ! u") (simp add: Cons.IH add.assoc)
qed

lemma accumulate_eq:
  "accumulate offsets ns =
     (Vec (sum_list (map (\<lambda>u. vx (offsets ! u)) ns))
          (sum_list (map (\<lambda>u. vy (offsets ! u)) ns))
          (sum_list (map (\<lambda>u. vz (offsets ! u)) ns)), length ns)"
  by (simp add: accumulate_def fold_accumulate vzero_def)

lemma smooth_vertex_lam_one:
  "smooth_vertex m 1 offsets v =
     (if nbrs m v = [] then offsets ! v else mean (map (\<lambda>u. offsets ! u) (nbrs m v)))"
  by (simp add: smooth_vertex_def accumulate_eq lerp_one mean_def comp_def)

lemma nbrs_valid: "edges_valid m \<Longrightarrow> v < length (verts m) \<Longrightarrow> u \<in> set (nbrs m v) \<Longrightarrow> u < length (verts m)"
  by (auto simp: edges_valid_def nbrs_def link_edges_def other_vert_def list_all_iff)

lemma sum_list_all_zero: "\<forall>u \<in> set ns. f u = (0::real) \<Longrightarrow> sum_list (map f ns) = 0"
  by (induction ns) simp_all

lemma accumulate_zero:
  assumes "\<forall>u \<in> set ns. offsets ! u = vzero"
  shows "fst (accumulate offsets ns) = vzero"
proof -
  have "sum_list (map (\<lambda>u. vx (offsets ! u)) ns) = 0"
    by (rule sum_list_all_zero) (simp add: assms vzero_def)
  moreover have "sum_list (map (\<lambda>u. vy (offsets ! u)) ns) = 0"
    by (rule sum_list_all_zero) (simp add: assms vzero_def)
  moreover have "sum_list (map (\<lambda>u. vz (offsets ! u)) ns) = 0"
    by (rule sum_list_all_zero) (simp add: assms vzero_def)
  ultimately show ?thesis by (simp add: accumulate_eq vzero_def)
qed

lemma smooth_pass_zero:
  assumes "edges_valid m"
  shows "smooth_pass m lam (replicate (length (verts m)) vzero) = replicate (length (verts m)) vzero"
proof -
  let ?n = "length (verts m)"
  let ?z = "replicate ?n vzero"
  have "smooth_vertex m lam ?z v = vzero" if "v < ?n" for v
  proof -
    have "\<forall>u \<in> set (nbrs m v). ?z ! u = vzero"
      using nbrs_valid [OF assms that] by simp
    then have "fst (accumulate ?z (nbrs m v)) = vzero" by (rule accumulate_zero)
    then show ?thesis using that
      by (cases "accumulate ?z (nbrs m v)") (simp add: smooth_vertex_def lerp_vzero sdiv_vzero)
  qed
  then show ?thesis
    by (intro nth_equalityI) (simp_all add: smooth_pass_def)
qed

lemma funpow_fixed: "f x = x \<Longrightarrow> (f ^^ k) x = x"
  by (induction k) simp_all

lemma smooth_offsets_zero:
  assumes "edges_valid m"
  shows "smooth_offsets m lam k (replicate (length (verts m)) vzero) = replicate (length (verts m)) vzero"
  unfolding smooth_offsets_def
  by (rule funpow_fixed) (rule smooth_pass_zero [OF assms])

lemma tangential_offset_vzero: "tangential_offset co vzero = vzero"
  by (cases "normalized co") (simp add: tangential_offset_def Let_def vzero_def)

lemma apply_offset_vzero: "apply_offset radius co vzero = project_to_radius co radius"
  by (simp add: apply_offset_def tangential_offset_vzero vadd_vzero_right)

lemma jitter_zero_strength:
  assumes "edges_valid m"
  shows "verts (fst (organic_jitter_dual_on_sphere R m radius 0 smooth_iters lam seed g0)) =
           map (\<lambda>p. project_to_radius p radius) (verts m)"
proof -
  obtain offs g' where i: "initial_offsets R 0 (verts m) (random_seed R seed g0) = (offs, g')"
    by (cases "initial_offsets R 0 (verts m) (random_seed R seed g0)")
  have "offs = replicate (length (verts m)) vzero"
    using initial_offsets_zero [of R "verts m" "random_seed R seed g0"] i by simp
  then have "smooth_offsets m lam smooth_iters offs = replicate (length (verts m)) vzero"
    using smooth_offsets_zero [OF assms] by simp
  then have "map (\<lambda>v. apply_offset radius (verts m ! v) (smooth_offsets m lam smooth_iters offs ! v))
                 [0..<length (verts m)] = map (\<lambda>p. project_to_radius p radius) (verts m)"
    by (intro nth_equalityI) (simp_all add: apply_offset_vzero)
  then show ?thesis
    by (simp add: organic_jitter_dual_on_sphere_def i Let_def)
qed


lemma project_on_sphere:
  assumes "vlength p = radius" "0 < radius"
  shows "project_to_radius p radius = p"
  using assms by (cases p) (simp add: project_to_radius_def normalized_def)

lemma edges_valid_example: "edges_valid example_mesh"
  by (simp add: edges_valid_def example_mesh_def)

section \<open>The loops of the dual builder\<close>

lemma create_dual_verts_fold:
  "fold (new_dual_vert bm) [0..<k] (empty_bmesh, Map.empty) =
     (empty_bmesh\<lparr>verts := map (\<lambda>f. calc_center_median bm (faces bm ! f)) [0..<k]\<rparr>, index_map k)"
proof (induction k)
  case 0
  show ?case by (simp add: empty_bmesh_def index_map_def)
next
  case (Suc k)
  have m: "(index_map k)(k \<mapsto> k) = index_map (Suc k)"
    by (rule ext) (simp add: index_map_def)
  have "fold (new_dual_vert bm) [0..<Suc k] (empty_bmesh, Map.empty) =
          new_dual_vert bm k (fold (new_dual_vert bm) [0..<k] (empty_bmesh, Map.empty))"
    by simp
  also have "\<dots> = new_dual_vert bm k
      (empty_bmesh\<lparr>verts := map (\<lambda>f. calc_center_median bm (faces bm ! f)) [0..<k]\<rparr>, index_map k)"
    by (simp only: Suc)
  also have "\<dots> = (empty_bmesh\<lparr>verts := map (\<lambda>f. calc_center_median bm (faces bm ! f)) [0..<Suc k]\<rparr>,
                      index_map (Suc k))"
    by (simp add: new_dual_vert_def Let_def m)
  finally show ?case .
qed

lemma create_dual_verts_eq:
  "create_dual_verts bm =
     (empty_bmesh\<lparr>verts := map (calc_center_median bm) (faces bm)\<rparr>, index_map (length (faces bm)))"
proof -
  have "map (\<lambda>f. calc_center_median bm (faces bm ! f)) [0..<length (faces bm)] =
          map (calc_center_median bm) (faces bm)"
    by (intro nth_equalityI) simp_all
  then show ?thesis by (simp add: create_dual_verts_def create_dual_verts_fold)
qed

lemma dverts_of_index_map:
  "\<forall>item \<in> set items. snd item < k \<Longrightarrow> dverts_of (index_map k) items = Inr (map snd items)"
  by (induction items) (simp_all add: index_map_def)

lemma sorted_items_eq:
  "sorted_items bm v = sort_key fst (map (\<lambda>f. (angle_key bm v f, f)) (link_faces bm v))"
  by (simp add: sorted_items_def angle_key_def Let_def case_prod_beta)

lemma mset_corners: "mset (corners bm v) = mset (link_faces bm v)"
proof -
  have "mset (map snd (sort_key fst (map (\<lambda>f. (angle_key bm v f, f)) (link_faces bm v)))) =
        mset (map snd (map (\<lambda>f. (angle_key bm v f, f)) (link_faces bm v)))"
    by (simp only: mset_map mset_sort)
  then show ?thesis by (simp add: corners_def sorted_items_eq comp_def)
qed

lemma set_corners: "set (corners bm v) = set (link_faces bm v)"
  using mset_corners [of bm v] by (metis set_mset_mset)

lemma length_corners: "length (corners bm v) = valence bm v"
  using mset_corners [of bm v] by (metis size_mset valence_def)

lemma distinct_link_faces: "distinct (link_faces bm v)"
  by (simp add: link_faces_def)

lemma distinct_corners: "distinct (corners bm v)"
  using mset_corners [of bm v] distinct_link_faces [of bm v] by (metis mset_eq_imp_distinct_iff)

lemma link_faces_less: "f \<in> set (link_faces bm v) \<Longrightarrow> f < length (faces bm)"
  by (simp add: link_faces_def)

lemma items_snd_less: "item \<in> set (sorted_items bm v) \<Longrightarrow> snd item < length (faces bm)"
proof -
  assume "item \<in> set (sorted_items bm v)"
  then have "snd item \<in> set (corners bm v)" by (simp add: corners_def)
  then show ?thesis by (simp add: set_corners link_faces_less)
qed

lemma map_fst_sorted_items: "map fst (sorted_items bm v) = map (angle_key bm v) (corners bm v)"
proof -
  have "\<forall>item \<in> set (sorted_items bm v). fst item = angle_key bm v (snd item)"
    by (auto simp: sorted_items_eq)
  then show ?thesis by (simp add: corners_def)
qed

lemma sorted_corners: "sorted (map (angle_key bm v) (corners bm v))"
proof -
  have "sorted (map fst (sorted_items bm v))" by (simp add: sorted_items_eq)
  then show ?thesis by (simp only: map_fst_sorted_items)
qed

lemma dverts_of_sorted_items:
  "dverts_of (index_map (length (faces bm))) (sorted_items bm v) = Inr (corners bm v)"
  unfolding corners_def by (rule dverts_of_index_map) (simp add: items_snd_less)

lemma dual_face_step_eq:
  "dual_face_step bm (index_map (length (faces bm))) v d =
     Inr (if valence bm v < 3 \<or> face_exists d (corners bm v) then d
          else d\<lparr>edges := fold add_edge (zip (corners bm v) (rotate1 (corners bm v))) (edges d),
                 faces := faces d @ [corners bm v]\<rparr>)"
  using length_corners [of bm v] distinct_corners [of bm v]
  by (simp add: dual_face_step_def Let_def dverts_of_sorted_items faces_new_def valence_def)


lemma dual_faces_loop_total:
  "\<exists>d'. dual_faces_loop bm (index_map (length (faces bm))) vs d = Inr d' \<and> verts d' = verts d"
proof (induction vs arbitrary: d)
  case Nil
  show ?case by simp
next
  case (Cons v vs)
  obtain d1 where s: "dual_face_step bm (index_map (length (faces bm))) v d = Inr d1"
    and v1: "verts d1 = verts d"
    by (simp add: dual_face_step_eq)
  from Cons [of d1] show ?case by (simp add: s v1)
qed

lemma dual_faces_loop_sound:
  "dual_faces_loop bm (index_map (length (faces bm))) vs d = Inr d' \<Longrightarrow>
   fc \<in> set (faces d') \<Longrightarrow>
   fc \<in> set (faces d) \<or> (\<exists>v \<in> set vs. 3 \<le> valence bm v \<and> fc = corners bm v)"
proof (induction vs arbitrary: d)
  case Nil
  then show ?case by simp
next
  case (Cons v vs)
  let ?d1 = "if valence bm v < 3 \<or> face_exists d (corners bm v) then d
          else d\<lparr>edges := fold add_edge (zip (corners bm v) (rotate1 (corners bm v))) (edges d),
                 faces := faces d @ [corners bm v]\<rparr>"
  from Cons.prems(1) have l: "dual_faces_loop bm (index_map (length (faces bm))) vs ?d1 = Inr d'"
    by (simp add: dual_face_step_eq)
  from Cons.IH [OF l Cons.prems(2)]
  have "fc \<in> set (faces ?d1) \<or> (\<exists>v \<in> set vs. 3 \<le> valence bm v \<and> fc = corners bm v)" .
  then show ?case
  proof
    assume "fc \<in> set (faces ?d1)"
    then have "fc \<in> set (faces d) \<or> (3 \<le> valence bm v \<and> fc = corners bm v)"
      by (auto split: if_splits)
    then show ?thesis by auto
  next
    assume "\<exists>v \<in> set vs. 3 \<le> valence bm v \<and> fc = corners bm v"
    then show ?thesis by auto
  qed
qed

lemma closed_manifold_shared:
  assumes "closed_manifold bm" "v < length (verts bm)" "w < length (verts bm)" "v \<noteq> w"
  shows "length (shared_faces bm v w) = 0 \<or> length (shared_faces bm v w) = 2"
proof -
  have "\<forall>a \<in> {0..<length (verts bm)}. \<forall>b \<in> {0..<length (verts bm)}.
          a = b \<or> shared_faces bm a b = [] \<or> length (shared_faces bm a b) = 2"
    using assms(1) by (simp add: closed_manifold_def list_all_iff)
  moreover have "v \<in> {0..<length (verts bm)}" "w \<in> {0..<length (verts bm)}"
    using assms(2,3) by simp_all
  ultimately have "v = w \<or> shared_faces bm v w = [] \<or> length (shared_faces bm v w) = 2"
    by blast
  then show ?thesis using assms(4) by auto
qed

lemma corners_no_clash:
  assumes cm: "closed_manifold bm"
    and v: "v < length (verts bm)" and w: "w < length (verts bm)" and ne: "v \<noteq> w"
    and val: "3 \<le> valence bm v"
  shows "set (corners bm w) \<noteq> set (corners bm v)"
proof
  assume "set (corners bm w) = set (corners bm v)"
  then have e: "set (link_faces bm w) = set (link_faces bm v)" by (simp add: set_corners)
  have "link_faces bm v = shared_faces bm v w"
    unfolding link_faces_def shared_faces_def
  proof (rule filter_cong [OF refl])
    fix i assume "i \<in> set [0..<length (faces bm)]"
    then have i: "i < length (faces bm)" by simp
    show "(v \<in> set (faces bm ! i)) = (v \<in> set (faces bm ! i) \<and> w \<in> set (faces bm ! i))"
    proof (cases "v \<in> set (faces bm ! i)")
      case True
      then have "i \<in> set (link_faces bm v)" using i by (simp add: link_faces_def)
      then have "i \<in> set (link_faces bm w)" using e by simp
      then show ?thesis using True by (simp add: link_faces_def)
    next
      case False
      then show ?thesis by simp
    qed
  qed
  then have "length (shared_faces bm v w) = valence bm v" by (simp add: valence_def)
  then show False using closed_manifold_shared [OF cm v w ne] val by auto
qed

lemma dual_faces_loop_manifold:
  assumes cm: "closed_manifold bm"
  shows "distinct vs \<Longrightarrow> \<forall>v \<in> set vs. v < length (verts bm) \<Longrightarrow>
         \<forall>fc \<in> set (faces d). \<exists>w. w < length (verts bm) \<and> w \<notin> set vs \<and> fc = corners bm w \<Longrightarrow>
         dual_faces_loop bm (index_map (length (faces bm))) vs d = Inr d' \<Longrightarrow>
         faces d' = faces d @ map (corners bm) (filter (\<lambda>v. 3 \<le> valence bm v) vs)"
proof (induction vs arbitrary: d)
  case Nil
  then show ?case by simp
next
  case (Cons v vs)
  let ?d1 = "if valence bm v < 3 \<or> face_exists d (corners bm v) then d
          else d\<lparr>edges := fold add_edge (zip (corners bm v) (rotate1 (corners bm v))) (edges d),
                 faces := faces d @ [corners bm v]\<rparr>"
  from Cons.prems(4) have l: "dual_faces_loop bm (index_map (length (faces bm))) vs ?d1 = Inr d'"
    by (simp add: dual_face_step_eq)
  have v: "v < length (verts bm)" and vn: "v \<notin> set vs" and dv: "distinct vs"
    and vs: "\<forall>u \<in> set vs. u < length (verts bm)"
    using Cons.prems(1,2) by auto
  have nex: "\<not> face_exists d (corners bm v)" if val: "3 \<le> valence bm v"
  proof
    assume "face_exists d (corners bm v)"
    then obtain fc where fc: "fc \<in> set (faces d)" and s: "set fc = set (corners bm v)"
      by (auto simp: face_exists_def list_ex_iff)
    from Cons.prems(3) fc obtain w where w: "w < length (verts bm)" "w \<notin> set (v # vs)"
      "fc = corners bm w" by blast
    then have "v \<noteq> w" by auto
    from corners_no_clash [OF cm v w(1) this val] s w(3) show False by simp
  qed
  have inv: "\<forall>fc \<in> set (faces ?d1). \<exists>w. w < length (verts bm) \<and> w \<notin> set vs \<and> fc = corners bm w"
  proof
    fix fc assume "fc \<in> set (faces ?d1)"
    then have "fc \<in> set (faces d) \<or> fc = corners bm v" by (auto split: if_splits)
    then show "\<exists>w. w < length (verts bm) \<and> w \<notin> set vs \<and> fc = corners bm w"
    proof
      assume "fc \<in> set (faces d)"
      with Cons.prems(3) obtain w where "w < length (verts bm)" "w \<notin> set (v # vs)"
        "fc = corners bm w" by blast
      then show ?thesis by auto
    next
      assume "fc = corners bm v"
      then show ?thesis using v vn by blast
    qed
  qed
  have "faces d' = faces ?d1 @ map (corners bm) (filter (\<lambda>v. 3 \<le> valence bm v) vs)"
    by (rule Cons.IH [OF dv vs inv l])
  then show ?case using nex by (cases "3 \<le> valence bm v") auto
qed

lemma build_dual_eq:
  "build_dual_from_object triangulate obj =
     dual_faces_loop (triangulate obj) (index_map (length (faces (triangulate obj))))
       [0..<length (verts (triangulate obj))]
       (empty_bmesh\<lparr>verts := map (calc_center_median (triangulate obj)) (faces (triangulate obj))\<rparr>)"
  by (simp add: build_dual_from_object_def Let_def create_dual_verts_eq)

lemma build_dual_total:
  "\<exists>d. build_dual_from_object triangulate obj = Inr d \<and>
        verts d = map (calc_center_median (triangulate obj)) (faces (triangulate obj))"
  using dual_faces_loop_total [of "triangulate obj" "[0..<length (verts (triangulate obj))]"
      "empty_bmesh\<lparr>verts := map (calc_center_median (triangulate obj)) (faces (triangulate obj))\<rparr>"]
  by (simp add: build_dual_eq)

lemma build_dual_manifold:
  assumes "closed_manifold (triangulate obj)"
    and "build_dual_from_object triangulate obj = Inr d"
  shows "faces d = map (corners (triangulate obj))
                     (filter (\<lambda>v. 3 \<le> valence (triangulate obj) v) [0..<length (verts (triangulate obj))])"
proof -
  let ?bm = "triangulate obj"
  let ?d0 = "empty_bmesh\<lparr>verts := map (calc_center_median ?bm) (faces ?bm)\<rparr>"
  have l: "dual_faces_loop ?bm (index_map (length (faces ?bm))) [0..<length (verts ?bm)] ?d0 = Inr d"
    using assms(2) by (simp add: build_dual_eq)
  have "faces d = faces ?d0 @ map (corners ?bm) (filter (\<lambda>v. 3 \<le> valence ?bm v) [0..<length (verts ?bm)])"
    by (rule dual_faces_loop_manifold [OF assms(1) _ _ _ l]) (simp_all add: empty_bmesh_def)
  then show ?thesis by (simp add: empty_bmesh_def)
qed



section \<open>The example meshes\<close>

lemma angle_key_eq:
  "angle_key bm v f =
     (if vlength (tangent_direction bm v f) < 1 / 10 ^ 9 then 0 else spec_angle bm v f)"
  by (simp add: angle_key_def face_angle_def tangent_direction_def spec_angle_def Let_def)

lemma normalized_axis_x: "a \<noteq> 0 \<Longrightarrow> normalized (Vec a 0 0) = Vec (a / \<bar>a\<bar>) 0 0"
  by (simp add: normalized_def vlength_axis)

lemma normalized_axis_y: "b \<noteq> 0 \<Longrightarrow> normalized (Vec 0 b 0) = Vec 0 (b / \<bar>b\<bar>) 0"
  by (simp add: normalized_def vlength_axis)

lemma normalized_axis_z: "c \<noteq> 0 \<Longrightarrow> normalized (Vec 0 0 c) = Vec 0 0 (c / \<bar>c\<bar>)"
  by (simp add: normalized_def vlength_axis)

lemma tangent_basis_x: "tangent_basis (Vec 1 0 0) = (Vec 0 0 1, Vec 0 (- 1) 0)"
  by (simp add: tangent_basis_def Let_def normalized_axis_x normalized_axis_y normalized_axis_z)

lemma tetra_link_faces:
  "link_faces tetrahedron 0 = [0, 1, 2]"
  "link_faces tetrahedron 1 = [0, 2, 3]"
  "link_faces tetrahedron 2 = [0, 1, 3]"
  "link_faces tetrahedron 3 = [1, 2, 3]"
  by (simp_all add: link_faces_def tetrahedron_def upt_rec [of _ "numeral _"])

lemma tetra_centers:
  "calc_center_median tetrahedron (faces tetrahedron ! 0) = Vec (1 / 3) 0 (- (2 / (3 * 10 ^ 10)))"
  "calc_center_median tetrahedron (faces tetrahedron ! Suc 0) = Vec 0 (- 1) 0"
  "calc_center_median tetrahedron (faces tetrahedron ! 2) = Vec 0 1 0"
  by (simp_all add: calc_center_median_def tetrahedron_def vzero_def)

lemma tetra_vertex_0: "verts tetrahedron ! 0 = Vec 1 0 0"
  by (simp add: tetrahedron_def)

lemma tetra_directions:
  "tangent_direction tetrahedron 0 0 = Vec 0 0 (- (2 / (3 * 10 ^ 10)))"
  "tangent_direction tetrahedron 0 (Suc 0) = Vec 0 (- 1) 0"
  "tangent_direction tetrahedron 0 2 = Vec 0 1 0"
  by (simp_all add: tangent_direction_def Let_def tetra_centers tetra_vertex_0 normalized_axis_x)

lemma tetra_spec_angles:
  "spec_angle tetrahedron 0 0 = pi"
  "spec_angle tetrahedron 0 (Suc 0) = pi / 2"
  "spec_angle tetrahedron 0 2 = - (pi / 2)"
  by (simp_all add: spec_angle_def Let_def tetra_directions tetra_vertex_0
        normalized_axis_x normalized_axis_y normalized_axis_z tangent_basis_x atan2_def)

lemma tetra_angle_keys:
  "angle_key tetrahedron 0 0 = 0"
  "angle_key tetrahedron 0 (Suc 0) = pi / 2"
  "angle_key tetrahedron 0 2 = - (pi / 2)"
  by (simp_all add: angle_key_eq tetra_directions tetra_spec_angles vlength_axis)

lemma pi_not_le_zero: "\<not> pi \<le> 0"
  using pi_gt_zero by linarith

lemma tetra_corners: "corners tetrahedron 0 = [2, 0, 1]"
  by (simp add: corners_def sorted_items_eq tetra_link_faces tetra_angle_keys pi_not_le_zero)

lemma tetra_valence: "valence tetrahedron 0 = 3" "valence tetrahedron (Suc 0) = 3"
  "valence tetrahedron 2 = 3" "valence tetrahedron 3 = 3"
  using tetra_link_faces by (simp_all add: valence_def)

lemma tetra_triangulated: "triangulated tetrahedron"
  by (simp add: triangulated_def tetrahedron_def)

lemma tetra_shared:
  "length (shared_faces tetrahedron 0 (Suc 0)) = 2" "length (shared_faces tetrahedron 0 2) = 2"
  "length (shared_faces tetrahedron 0 3) = 2" "length (shared_faces tetrahedron (Suc 0) 2) = 2"
  "length (shared_faces tetrahedron (Suc 0) 3) = 2" "length (shared_faces tetrahedron 2 3) = 2"
  "length (shared_faces tetrahedron (Suc 0) 0) = 2" "length (shared_faces tetrahedron 2 0) = 2"
  "length (shared_faces tetrahedron 3 0) = 2" "length (shared_faces tetrahedron 2 (Suc 0)) = 2"
  "length (shared_faces tetrahedron 3 (Suc 0)) = 2" "length (shared_faces tetrahedron 3 2) = 2"
  by (simp_all add: shared_faces_def tetrahedron_def upt_rec [of _ "numeral _"])

lemma upt_0_4: "[0..<4] = [0, 1, 2, 3]"
  by (simp add: upt_rec [of _ "numeral _"])

lemma tetra_closed_manifold: "closed_manifold tetrahedron"
proof -
  have "length (verts tetrahedron) = 4" by (simp add: tetrahedron_def)
  then show ?thesis
    by (simp add: closed_manifold_def upt_0_4 tetra_shared)
qed

lemma tetra_dual_faces:
  assumes "build_dual_from_object (\<lambda>m. m) tetrahedron = Inr dual"
  shows "faces dual = [corners tetrahedron 0, corners tetrahedron 1, corners tetrahedron 2,
                       corners tetrahedron 3]"
proof -
  have "length (verts tetrahedron) = 4" by (simp add: tetrahedron_def)
  then have "filter (\<lambda>v. 3 \<le> valence tetrahedron v) [0..<length (verts tetrahedron)] = [0, 1, 2, 3]"
    by (simp add: upt_0_4 tetra_valence)
  with build_dual_manifold [of "\<lambda>m. m" tetrahedron dual, OF tetra_closed_manifold assms]
  show ?thesis by simp
qed

lemma fan_link_faces:
  "link_faces fan_mesh 0 = [0, 1, 2]" "link_faces fan_mesh (Suc 0) = [0, 1, 2]"
  "link_faces fan_mesh 2 = [0]"
  by (simp_all add: link_faces_def fan_mesh_def upt_rec [of _ "numeral _"])

lemma fan_faces_new: "faces_new fan_dual (corners fan_mesh (Suc 0)) = Inl ValueError"
proof -
  have "length (corners fan_mesh (Suc 0)) = 3" "length (corners fan_mesh 0) = 3"
    by (simp_all add: length_corners valence_def fan_link_faces)
  moreover have "set (corners fan_mesh 0) = set (corners fan_mesh (Suc 0))"
    by (simp add: set_corners fan_link_faces)
  ultimately show ?thesis
    by (simp add: faces_new_def distinct_corners face_exists_def fan_dual_def)
qed


section \<open>Properties of the organic jitter\<close>

text \<open>
  C1, as the specification states it: with \<open>strength = 0\<close> the final positions equal the
  positions before the pass. This fails: the last loop still projects every vertex onto
  the sphere. On the example mesh with radius 2 the vertex at \<open>(1, 0, 0)\<close> ends at
  \<open>(2, 0, 0)\<close>.
\<close>

theorem zero_strength_counterexample:
  "verts (fst (organic_jitter_dual_on_sphere example_rng example_mesh 2 0 3 (1 / 2) 7 0))
     \<noteq> verts example_mesh"
  by (simp add: jitter_zero_strength [OF edges_valid_example])
     (simp add: example_mesh_def project_to_radius_def normalized_def vlength_axis)

text \<open>
  C1, amended: with \<open>strength = 0\<close>, for any number of iterations, any \<open>lam\<close> and any seed,
  every offset is the zero vector and the final position of each vertex is
  \<open>project_to_radius\<close> of its position before the pass. The positions are unchanged when
  they already lie on the sphere of the given positive radius.
\<close>

theorem zero_strength_projects:
  assumes "edges_valid m"
  shows "verts (fst (organic_jitter_dual_on_sphere R m radius 0 smooth_iters lam seed g0)) =
           map (\<lambda>p. project_to_radius p radius) (verts m) \<and>
         ((\<forall>p \<in> set (verts m). vlength p = radius) \<and> 0 < radius \<longrightarrow>
            verts (fst (organic_jitter_dual_on_sphere R m radius 0 smooth_iters lam seed g0)) =
              verts m)"
proof -
  have "map (\<lambda>p. project_to_radius p radius) (verts m) = verts m"
    if "\<forall>p \<in> set (verts m). vlength p = radius" "0 < radius"
    using that by (intro nth_equalityI) (simp_all add: project_on_sphere)
  then show ?thesis by (simp add: jitter_zero_strength [OF assms])
qed

theorem zero_strength_projects_witness:
  "edges_valid example_mesh \<and>
   verts (fst (organic_jitter_dual_on_sphere example_rng example_mesh 2 0 3 (1 / 2) 7 0)) =
     [Vec 2 0 0, Vec 0 2 0, Vec 0 0 2, Vec 2 0 0]"
proof -
  have e: "edges_valid example_mesh" by (simp add: edges_valid_def example_mesh_def)
  have "map (\<lambda>p. project_to_radius p 2) (verts example_mesh) =
          [Vec 2 0 0, Vec 0 2 0, Vec 0 0 2, Vec 2 0 0]"
    by (simp add: example_mesh_def project_to_radius_def normalized_def vlength_axis)
  with zero_strength_projects [OF e, of example_rng 2 3 "1 / 2" 7 0] e show ?thesis by simp
qed

text \<open>
  C4: the pass is deterministic. The mesh and the generator state it leaves depend on the
  seed, the mesh and the parameters only: whatever state the global generator had before
  the call, \<open>random.seed(seed)\<close> replaces it.
\<close>

theorem jitter_deterministic:
  "organic_jitter_dual_on_sphere R m radius strength smooth_iters lam seed g1 =
   organic_jitter_dual_on_sphere R m radius strength smooth_iters lam seed g2"
  by (simp add: organic_jitter_dual_on_sphere_def random_seed_def)

text \<open>
  C5: after the pass every vertex position has length \<open>radius\<close> (a radius is not negative),
  and \<open>project_to_radius\<close> sends the zero vector to \<open>(radius, 0, 0)\<close>.
\<close>

theorem jitter_on_sphere:
  assumes "0 \<le> radius"
  shows "(\<forall>p \<in> set (verts (fst (organic_jitter_dual_on_sphere R m radius strength smooth_iters
                                    lam seed g0))). vlength p = radius) \<and>
         project_to_radius vzero radius = Vec radius 0 0"
proof -
  have "vlength (apply_offset radius co off) = radius" for co off
    using assms by (simp add: apply_offset_def vlength_project_to_radius)
  then have "\<forall>p \<in> set (verts (fst (organic_jitter_dual_on_sphere R m radius strength smooth_iters
                                    lam seed g0))). vlength p = radius"
    by (auto simp: organic_jitter_dual_on_sphere_def Let_def case_prod_beta)
  moreover have "project_to_radius vzero radius = Vec radius 0 0"
    by (simp add: project_to_radius_def vlength_vzero)
  ultimately show ?thesis by simp
qed

theorem jitter_on_sphere_witness:
  "(0::real) \<le> 2 \<and>
   list_all (\<lambda>p. vlength p = 2)
     (verts (fst (organic_jitter_dual_on_sphere example_rng example_mesh 2 3 4 (1 / 2) 7 0))) \<and>
   project_to_radius vzero 2 = Vec 2 0 0"
  using jitter_on_sphere [of 2 example_rng example_mesh 3 4 "1 / 2" 7 0]
  by (simp add: list_all_iff)

text \<open>
  C6: with \<open>lam = 1\<close> one smoothing iteration gives every vertex the mean of the offsets
  that its neighbours had before the iteration, and a vertex without neighbours keeps its
  offset.
\<close>

theorem smoothing_lambda_one:
  "smooth_offsets m 1 1 offsets = smooth_pass m 1 offsets \<and>
   (\<forall>v < length (verts m).
      smooth_pass m 1 offsets ! v =
        (if nbrs m v = [] then offsets ! v
         else mean (map (\<lambda>u. offsets ! u) (nbrs m v))))"
  by (simp add: smooth_offsets_def iteration_count_def smooth_pass_def smooth_vertex_lam_one)

theorem smoothing_lambda_one_witness:
  "smooth_pass example_mesh 1 example_offsets ! 0 = Vec 0 1 2 \<and>
   smooth_pass example_mesh 1 example_offsets ! 1 = Vec 1 0 0 \<and>
   smooth_pass example_mesh 1 example_offsets ! 3 = Vec 5 5 5"
proof -
  have n: "nbrs example_mesh 0 = [1, 2]" "nbrs example_mesh 1 = [0]" "nbrs example_mesh 3 = []"
    by (simp_all add: nbrs_def link_edges_def other_vert_def example_mesh_def)
  have l: "(0::nat) < length (verts example_mesh)" "(1::nat) < length (verts example_mesh)"
    "(3::nat) < length (verts example_mesh)"
    by (simp_all add: example_mesh_def)
  from smoothing_lambda_one [of example_mesh example_offsets] l n
  have "smooth_pass example_mesh 1 example_offsets ! 0 =
          mean (map (\<lambda>u. example_offsets ! u) [1, 2])"
       "smooth_pass example_mesh 1 example_offsets ! 1 =
          mean (map (\<lambda>u. example_offsets ! u) [0])"
       "smooth_pass example_mesh 1 example_offsets ! 3 = example_offsets ! 3"
    by simp_all
  then show ?thesis by (simp add: mean_def example_offsets_def)
qed

text \<open>
  C7: the offset that the last loop adds to a position has no component along the normal
  of the vertex, the normalized position.
\<close>

theorem offset_is_tangential:
  "dot (tangential_offset co off) (normalized co) = 0"
proof (cases "vlength co = 0")
  case True
  then have "normalized co = vzero" by (simp add: normalized_def vlength_zero_iff)
  then show ?thesis by (simp add: dot_vzero_right)
next
  case False
  then show ?thesis
    by (simp add: tangential_offset_def Let_def dot_vsub_smul dot_normalized_self)
qed

text \<open>
  C8: the pass changes positions only. The edges, the faces and the number of vertices of
  the mesh are the same before and after the call.
\<close>

theorem jitter_keeps_topology:
  "edges (fst (organic_jitter_dual_on_sphere R m radius strength smooth_iters lam seed g0)) = edges m \<and>
   faces (fst (organic_jitter_dual_on_sphere R m radius strength smooth_iters lam seed g0)) = faces m \<and>
   length (verts (fst (organic_jitter_dual_on_sphere R m radius strength smooth_iters lam seed g0))) =
     length (verts m)"
  by (simp add: organic_jitter_dual_on_sphere_def Let_def case_prod_beta)

text \<open>
  C10: for \<open>smooth_iters \<le> 0\<close> the smoothing loop runs zero times, the offsets pass through
  unchanged, and the call returns what it returns for \<open>smooth_iters = 0\<close>.
\<close>

theorem negative_iterations_clamped:
  assumes "smooth_iters \<le> 0"
  shows "iteration_count smooth_iters = 0 \<and>
         smooth_offsets m lam smooth_iters offsets = offsets \<and>
         organic_jitter_dual_on_sphere R m radius strength smooth_iters lam seed g0 =
           organic_jitter_dual_on_sphere R m radius strength 0 lam seed g0"
  using assms
  by (simp add: organic_jitter_dual_on_sphere_def smooth_offsets_def iteration_count_def)

theorem negative_iterations_clamped_witness:
  "(- 3 :: int) \<le> 0 \<and> iteration_count (- 3) = 0 \<and>
   smooth_offsets example_mesh (1 / 2) (- 3) example_offsets = example_offsets \<and>
   organic_jitter_dual_on_sphere example_rng example_mesh 2 3 (- 3) (1 / 2) 7 0 =
     organic_jitter_dual_on_sphere example_rng example_mesh 2 3 0 (1 / 2) 7 0"
  using negative_iterations_clamped [of "- 3" example_mesh "1 / 2" example_offsets
      example_rng 2 3 7 0]
  by simp

section \<open>Properties of the dual builder\<close>

text \<open>
  C2: for a closed, manifold, triangulated mesh, on which the triangulation changes
  nothing, the builder returns a dual mesh with one vertex for each face of the input and
  one face for each vertex of the input that has three or more faces around it.
\<close>

theorem dual_counts:
  assumes "\<And>m. triangulated m \<Longrightarrow> triangulate m = m"
    and "triangulated obj" and "closed_manifold obj"
  shows "\<exists>dual. build_dual_from_object triangulate obj = Inr dual \<and>
           length (verts dual) = length (faces obj) \<and>
           length (faces dual) =
             length (filter (\<lambda>v. 3 \<le> valence obj v) [0..<length (verts obj)])"
proof -
  have t: "triangulate obj = obj" using assms(1,2) by simp
  obtain dual where d: "build_dual_from_object triangulate obj = Inr dual"
    and v: "verts dual = map (calc_center_median (triangulate obj)) (faces (triangulate obj))"
    using build_dual_total [of triangulate obj] by blast
  have "closed_manifold (triangulate obj)" using assms(3) t by simp
  from build_dual_manifold [OF this d]
  have "faces dual = map (corners obj) (filter (\<lambda>v. 3 \<le> valence obj v) [0..<length (verts obj)])"
    by (simp add: t)
  then show ?thesis using d v t by simp
qed

theorem dual_counts_witness:
  "triangulated tetrahedron \<and> closed_manifold tetrahedron \<and>
   (\<exists>dual. build_dual_from_object (\<lambda>m. m) tetrahedron = Inr dual \<and>
      length (verts dual) = 4 \<and> length (faces dual) = 4)"
proof -
  have f: "length (faces tetrahedron) = 4" by (simp add: tetrahedron_def)
  have "length (verts tetrahedron) = 4" by (simp add: tetrahedron_def)
  then have n: "length (filter (\<lambda>v. 3 \<le> valence tetrahedron v) [0..<length (verts tetrahedron)]) = 4"
    by (simp add: upt_0_4 tetra_valence)
  from dual_counts [of "\<lambda>m. m" tetrahedron, OF _ tetra_triangulated tetra_closed_manifold]
  show ?thesis by (simp add: f n tetra_triangulated tetra_closed_manifold)
qed


text \<open>
  C3, as the specification states it: the face made for \<open>v\<close> lists the faces around \<open>v\<close>
  in ascending order of the signed angle of the normalized tangent direction. This fails
  on the tetrahedron at vertex 0: the face made is \<open>[2, 0, 1]\<close>, and the signed angles of
  its corners are \<open>-\<pi>/2\<close>, \<open>\<pi>\<close>, \<open>\<pi>/2\<close>. The builder stores the angle 0 for face 0, whose
  tangent direction is shorter than \<open>1e-9\<close>.
\<close>

theorem angle_order_counterexample:
  "(\<exists>dual. build_dual_from_object (\<lambda>m. m) tetrahedron = Inr dual \<and>
            faces dual ! 0 = [2, 0, 1]) \<and>
   valence tetrahedron 0 = 3 \<and>
   link_faces tetrahedron 0 = [0, 1, 2] \<and>
   map (spec_angle tetrahedron 0) [2, 0, 1] = [- (pi / 2), pi, pi / 2] \<and>
   \<not> sorted (map (spec_angle tetrahedron 0) [2, 0, 1])"
proof -
  obtain dual where d: "build_dual_from_object (\<lambda>m. m) tetrahedron = Inr dual"
    using build_dual_total [of "\<lambda>m. m" tetrahedron] by blast
  have "faces dual ! 0 = [2, 0, 1]"
    by (simp add: tetra_dual_faces [OF d] tetra_corners)
  with d have "\<exists>dual. build_dual_from_object (\<lambda>m. m) tetrahedron = Inr dual \<and>
            faces dual ! 0 = [2, 0, 1]" by blast
  moreover have "map (spec_angle tetrahedron 0) [2, 0, 1] = [- (pi / 2), pi, pi / 2]"
    by (simp add: tetra_spec_angles)
  moreover have "\<not> sorted (map (spec_angle tetrahedron 0) [2, 0, 1])"
    by (simp add: tetra_spec_angles pi_not_le_zero)
  ultimately show ?thesis by (simp add: tetra_valence tetra_link_faces)
qed

text \<open>
  C3, amended: every face of the dual mesh is made for a vertex \<open>v\<close> with three or more
  faces around it and lists the dual vertices of exactly those faces, in ascending order of
  the key that the builder stores: the signed angle \<open>atan2(dot(dir, b), dot(dir, t))\<close> of the
  normalized tangent direction when that direction is at least \<open>1e-9\<close> long before it is
  normalized, and 0 when it is shorter. The dual vertex of a face is the vertex with the
  index of the face, at the centre of the face.
\<close>

theorem dual_face_order:
  assumes "build_dual_from_object triangulate obj = Inr dual" and "fc \<in> set (faces dual)"
  shows "\<exists>v < length (verts (triangulate obj)).
           3 \<le> valence (triangulate obj) v \<and>
           fc = corners (triangulate obj) v \<and>
           mset fc = mset (link_faces (triangulate obj) v) \<and>
           sorted (map (angle_key (triangulate obj) v) fc) \<and>
           (\<forall>f \<in> set fc.
              angle_key (triangulate obj) v f =
                (if vlength (tangent_direction (triangulate obj) v f) < 1 / 10 ^ 9 then 0
                 else spec_angle (triangulate obj) v f) \<and>
              f < length (verts dual) \<and>
              verts dual ! f = calc_center_median (triangulate obj) (faces (triangulate obj) ! f))"
proof -
  let ?bm = "triangulate obj"
  let ?d0 = "empty_bmesh\<lparr>verts := map (calc_center_median ?bm) (faces ?bm)\<rparr>"
  have l: "dual_faces_loop ?bm (index_map (length (faces ?bm))) [0..<length (verts ?bm)] ?d0 = Inr dual"
    using assms(1) by (simp add: build_dual_eq)
  from dual_faces_loop_sound [OF l assms(2)]
  obtain v where v: "v < length (verts ?bm)" "3 \<le> valence ?bm v" "fc = corners ?bm v"
    by (auto simp: empty_bmesh_def)
  have vd: "verts dual = map (calc_center_median ?bm) (faces ?bm)"
    using build_dual_total [of triangulate obj] assms(1) by auto
  have "f < length (verts dual) \<and> verts dual ! f = calc_center_median ?bm (faces ?bm ! f)"
    if "f \<in> set fc" for f
  proof -
    from that have "f < length (faces ?bm)" by (simp add: v(3) set_corners link_faces_less)
    then show ?thesis by (simp add: vd)
  qed
  then show ?thesis
    using v by (auto simp: mset_corners sorted_corners angle_key_eq)
qed

theorem dual_face_order_witness:
  "\<exists>dual. build_dual_from_object (\<lambda>m. m) tetrahedron = Inr dual \<and>
          [2, 0, 1] \<in> set (faces dual) \<and>
          (\<exists>v < length (verts tetrahedron).
             3 \<le> valence tetrahedron v \<and>
             mset [2, 0, 1] = mset (link_faces tetrahedron v) \<and>
             sorted (map (angle_key tetrahedron v) [2, 0, 1]))"
proof -
  obtain dual where d: "build_dual_from_object (\<lambda>m. m) tetrahedron = Inr dual"
    using build_dual_total [of "\<lambda>m. m" tetrahedron] by blast
  have m: "[2, 0, 1] \<in> set (faces dual)"
    by (simp add: tetra_dual_faces [OF d] tetra_corners)
  from dual_face_order [OF d m] d m show ?thesis by blast
qed

text \<open>
  C9: the builder always returns a mesh, for every input. A vertex with fewer than three
  faces around it leaves the dual mesh as it was, and so does a vertex whose face
  \<open>faces.new\<close> refuses with a \<open>ValueError\<close>.
\<close>

theorem builder_never_raises:
  "(\<exists>dual. build_dual_from_object triangulate obj = Inr dual) \<and>
   (length (link_faces bm v) < 3 \<longrightarrow> dual_face_step bm face_to_dv v dual_bm = Inr dual_bm) \<and>
   (3 \<le> length (link_faces bm v) \<and>
    dverts_of face_to_dv (sorted_items bm v) = Inr dverts \<and>
    faces_new dual_bm dverts = Inl ValueError \<longrightarrow>
      dual_face_step bm face_to_dv v dual_bm = Inr dual_bm)"
  using build_dual_total [of triangulate obj]
  by (auto simp: dual_face_step_def Let_def)

theorem builder_never_raises_witness:
  "(\<exists>dual. build_dual_from_object (\<lambda>m. m) fan_mesh = Inr dual) \<and>
   length (link_faces fan_mesh 2) < 3 \<and>
   dual_face_step fan_mesh (index_map 3) 2 fan_dual = Inr fan_dual \<and>
   3 \<le> length (link_faces fan_mesh 1) \<and>
   dverts_of (index_map 3) (sorted_items fan_mesh 1) = Inr (corners fan_mesh 1) \<and>
   faces_new fan_dual (corners fan_mesh 1) = Inl ValueError \<and>
   dual_face_step fan_mesh (index_map 3) 1 fan_dual = Inr fan_dual"
proof -
  have f: "length (faces fan_mesh) = 3" by (simp add: fan_mesh_def)
  have dv: "dverts_of (index_map 3) (sorted_items fan_mesh (Suc 0)) = Inr (corners fan_mesh (Suc 0))"
    using dverts_of_sorted_items [of fan_mesh "Suc 0"] by (simp add: f)
  from builder_never_raises [of "\<lambda>m. m" fan_mesh fan_mesh 2 "index_map 3" fan_dual]
    builder_never_raises [of "\<lambda>m. m" fan_mesh fan_mesh "Suc 0" "index_map 3" fan_dual
      "corners fan_mesh (Suc 0)"]
    dv fan_faces_new
  show ?thesis by (simp add: fan_link_faces)
qed


end
